theory Spec2Isabelle
  imports Complex_Main "HOL-Library.Char_ord" "HOL-Library.List_Lexorder"
begin

section \<open>Errors\<close>

text \<open>
  The exceptions the modelled code can raise. \<open>FileNotFoundError\<close> comes from
  \<^verbatim>\<open>pd.read_csv\<close> on a missing file, \<open>ValueError\<close> from \<^verbatim>\<open>strptime\<close> /
  \<^verbatim>\<open>pd.to_datetime\<close> on a text that is not a date and from the \<^verbatim>\<open>DataFrame\<close>
  constructor given only scalars, \<open>ZeroDivisionError\<close> from a division by zero.
\<close>

datatype error = FileNotFoundError | ValueError | ZeroDivisionError

section \<open>Calendar dates\<close>

text \<open>
  A \<^verbatim>\<open>datetime\<close> with no time of day: year, month, day. Python compares two of them
  field by field, year first.
\<close>

datatype date = Date (year: nat) (month: nat) (day: nat)

instantiation date :: linorder
begin

definition less_eq_date :: "date \<Rightarrow> date \<Rightarrow> bool" where
  "less_eq_date a b =
     (year a < year b \<or> (year a = year b \<and>
        (month a < month b \<or> (month a = month b \<and> day a \<le> day b))))"

definition less_date :: "date \<Rightarrow> date \<Rightarrow> bool" where
  "less_date a b =
     (year a < year b \<or> (year a = year b \<and>
        (month a < month b \<or> (month a = month b \<and> day a < day b))))"

instance
proof
  fix x y z :: date
  show "(x < y) = (x \<le> y \<and> \<not> y \<le> x)"
    by (auto simp: less_eq_date_def less_date_def)
  show "x \<le> x"
    by (simp add: less_eq_date_def)
  show "x \<le> y \<Longrightarrow> y \<le> z \<Longrightarrow> x \<le> z"
    by (auto simp: less_eq_date_def)
  show "x \<le> y \<Longrightarrow> y \<le> x \<Longrightarrow> x = y"
    by (auto simp: less_eq_date_def intro: date.expand)
  show "x \<le> y \<or> y \<le> x"
    by (auto simp: less_eq_date_def)
qed

end

definition is_leap :: "nat \<Rightarrow> bool" where
  "is_leap y = (y mod 4 = 0 \<and> (y mod 100 \<noteq> 0 \<or> y mod 400 = 0))"

definition days_in_month :: "nat \<Rightarrow> nat \<Rightarrow> nat" where
  "days_in_month y m =
     (if m = 2 then (if is_leap y then 29 else 28)
      else if m = 4 \<or> m = 6 \<or> m = 9 \<or> m = 11 then 30 else 31)"

text \<open>The dates a \<^verbatim>\<open>datetime\<close> can hold: years 1 to 9999, a real day of a real month.\<close>

definition valid_date :: "date \<Rightarrow> bool" where
  "valid_date d =
     (1 \<le> year d \<and> year d \<le> 9999 \<and> 1 \<le> month d \<and> month d \<le> 12 \<and>
      1 \<le> day d \<and> day d \<le> days_in_month (year d) (month d))"

section \<open>The date format \<^verbatim>\<open>%d-%m-%Y\<close>\<close>

definition digit_char :: "nat \<Rightarrow> char" where
  "digit_char n = char_of (48 + n)"

definition digit_val :: "char \<Rightarrow> nat" where
  "digit_val c = of_char c - 48"

definition in_range :: "char \<Rightarrow> char \<Rightarrow> char \<Rightarrow> bool" where
  "in_range lo hi c = ((of_char lo :: nat) \<le> of_char c \<and> (of_char c :: nat) \<le> of_char hi)"

definition is_digit :: "char \<Rightarrow> bool" where
  "is_digit c = in_range (CHR ''0'') (CHR ''9'') c"

text \<open>
  \<^verbatim>\<open>strftime\<close> hands the format to the C library. \<^verbatim>\<open>%d\<close> and \<^verbatim>\<open>%m\<close> are zero-padded to
  two digits. \<^verbatim>\<open>%Y\<close> is the year in decimal, which the C library of Linux does not pad:
  the year 999 is printed "999".
\<close>

definition pad2 :: "nat \<Rightarrow> string" where
  "pad2 n = [digit_char (n div 10 mod 10), digit_char (n mod 10)]"

fun decimal :: "nat \<Rightarrow> string" where
  "decimal n = (if n < 10 then [digit_char n] else decimal (n div 10) @ [digit_char (n mod 10)])"

declare decimal.simps [simp del]

definition strftime :: "date \<Rightarrow> string" where
  "strftime d = pad2 (day d) @ ''-'' @ pad2 (month d) @ ''-'' @ decimal (year d)"

text \<open>
  \<^verbatim>\<open>strptime\<close> turns the format into a regular expression and matches it at the start
  of the text. The pieces, with the alternatives in the order the regular expression
  lists them:
  \<^item> \<^verbatim>\<open>%d\<close> is \<^verbatim>\<open>3[0-1]|[1-2]\d|0[1-9]|[1-9]| [1-9]\<close>;
  \<^item> \<^verbatim>\<open>%m\<close> is \<^verbatim>\<open>1[0-2]|0[1-9]|[1-9]\<close>;
  \<^item> \<^verbatim>\<open>%Y\<close> is \<^verbatim>\<open>\d\d\d\d\<close>.
  Each matcher returns every way its piece matches a prefix, as (matched text, rest),
  in the order the backtracking search tries them.
\<close>

definition txt2 :: "(char \<Rightarrow> bool) \<Rightarrow> (char \<Rightarrow> bool) \<Rightarrow> string \<Rightarrow> (string \<times> string) list" where
  "txt2 p q s =
     (case s of c1 # c2 # r \<Rightarrow> (if p c1 \<and> q c2 then [([c1, c2], r)] else []) | _ \<Rightarrow> [])"

definition txt1 :: "(char \<Rightarrow> bool) \<Rightarrow> string \<Rightarrow> (string \<times> string) list" where
  "txt1 p s = (case s of c1 # r \<Rightarrow> (if p c1 then [([c1], r)] else []) | _ \<Rightarrow> [])"

definition match_d :: "string \<Rightarrow> (string \<times> string) list" where
  "match_d s =
     txt2 (\<lambda>c. c = CHR ''3'') (in_range (CHR ''0'') (CHR ''1'')) s @
     txt2 (in_range (CHR ''1'') (CHR ''2'')) is_digit s @
     txt2 (\<lambda>c. c = CHR ''0'') (in_range (CHR ''1'') (CHR ''9'')) s @
     txt1 (in_range (CHR ''1'') (CHR ''9'')) s @
     txt2 (\<lambda>c. c = CHR '' '') (in_range (CHR ''1'') (CHR ''9'')) s"

definition match_m :: "string \<Rightarrow> (string \<times> string) list" where
  "match_m s =
     txt2 (\<lambda>c. c = CHR ''1'') (in_range (CHR ''0'') (CHR ''2'')) s @
     txt2 (\<lambda>c. c = CHR ''0'') (in_range (CHR ''1'') (CHR ''9'')) s @
     txt1 (in_range (CHR ''1'') (CHR ''9'')) s"

definition match_Y :: "string \<Rightarrow> (string \<times> string) list" where
  "match_Y s =
     (case s of a # b # c # d # r \<Rightarrow>
        (if is_digit a \<and> is_digit b \<and> is_digit c \<and> is_digit d then [([a, b, c, d], r)] else [])
      | _ \<Rightarrow> [])"

definition lit :: "char \<Rightarrow> string \<Rightarrow> string list" where
  "lit c s = (case s of x # r \<Rightarrow> (if x = c then [r] else []) | [] \<Rightarrow> [])"

text \<open>A piece followed by a literal character: the matches of the piece that the character follows.\<close>

definition then_lit :: "char \<Rightarrow> (string \<times> string) list \<Rightarrow> (string \<times> string) list" where
  "then_lit c ms = concat (map (\<lambda>(t, r). map (Pair t) (lit c r)) ms)"

text \<open>All matches of the whole pattern: (day text, month text, year text, unconverted rest).\<close>

definition regex_match :: "string \<Rightarrow> (string \<times> string \<times> string \<times> string) list" where
  "regex_match s =
     concat (map (\<lambda>(d, r2).
       concat (map (\<lambda>(m, r4).
         map (\<lambda>(y, r5). (d, m, y, r5)) (match_Y r4))
       (then_lit (CHR ''-'') (match_m r2))))
     (then_lit (CHR ''-'') (match_d s)))"

text \<open>\<^verbatim>\<open>int(text)\<close> on a matched piece: leading blanks are skipped, then decimal digits.\<close>

definition py_int :: "string \<Rightarrow> nat" where
  "py_int s = foldl (\<lambda>n c. 10 * n + digit_val c) 0 (dropWhile (\<lambda>c. c = CHR '' '') s)"

text \<open>
  \<^verbatim>\<open>strptime(text, "%d-%m-%Y")\<close>: no match, text left over after the match, or a day that
  the month does not have (also year 0) raise \<open>ValueError\<close>.
\<close>

definition strptime :: "string \<Rightarrow> error + date" where
  "strptime s =
     (case regex_match s of
        [] \<Rightarrow> Inl ValueError
      | (d, m, y, r) # _ \<Rightarrow>
          if r \<noteq> [] then Inl ValueError
          else (let dt = Date (py_int y) (py_int m) (py_int d)
                in if valid_date dt then Inr dt else Inl ValueError))"

text \<open>
  The fixed pattern in the spec's words: a 2-digit day, a 2-digit month and a 4-digit
  year, separated by dashes (as in "05-03-2024"). A text is a list of 8-bit characters,
  among which the digits are "0" to "9".
\<close>

definition fixed_pattern :: "string \<Rightarrow> bool" where
  "fixed_pattern s =
     (length s = 10 \<and> is_digit (s ! 0) \<and> is_digit (s ! 1) \<and> s ! 2 = CHR ''-'' \<and>
      is_digit (s ! 3) \<and> is_digit (s ! 4) \<and> s ! 5 = CHR ''-'' \<and>
      is_digit (s ! 6) \<and> is_digit (s ! 7) \<and> is_digit (s ! 8) \<and> is_digit (s ! 9))"

section \<open>The ledger file and the range query\<close>

text \<open>
  One row of the table. The \<open>date\<close> column holds text as read from the file and dates
  after \<^verbatim>\<open>pd.to_datetime\<close>, hence the type parameter. \<^verbatim>\<open>read_csv\<close> reads an empty cell
  as a missing value; the description is the one field the entry form lets the user leave
  empty, so it is optional here. The code holds an amount as a float64; here it is the
  exact number it stands for, so a sum below is the exact sum of its rows and differs from
  the float64 sum by the rounding of the additions. No property below regroups a sum or
  equates two sums taken in different orders, which is where that rounding would decide.
\<close>

record 'd row =
  date :: 'd
  amount :: rat
  category :: string
  description :: "string option"

text \<open>The backing file: absent, or the rows below the header line.\<close>

type_synonym csv_file = "string row list option"

definition read_csv :: "csv_file \<Rightarrow> error + string row list" where
  "read_csv f = (case f of None \<Rightarrow> Inl FileNotFoundError | Some rows \<Rightarrow> Inr rows)"

definition initialize_csv :: "csv_file \<Rightarrow> csv_file" where
  "initialize_csv f =
     (case read_csv f of
        Inl FileNotFoundError \<Rightarrow> Some []
      | _ \<Rightarrow> f)"

text \<open>\<^verbatim>\<open>pd.to_datetime(column, format=FORMAT)\<close>: every cell is parsed, the first failure raises.\<close>

fun to_datetime :: "string list \<Rightarrow> error + date list" where
  "to_datetime [] = Inr []"
| "to_datetime (s # ss) =
     (case strptime s of
        Inl e \<Rightarrow> Inl e
      | Inr d \<Rightarrow> (case to_datetime ss of Inl e \<Rightarrow> Inl e | Inr ds \<Rightarrow> Inr (d # ds)))"

definition set_date :: "'a row \<Rightarrow> 'd \<Rightarrow> 'd row" where
  "set_date r d = \<lparr>date = d, amount = amount r, category = category r, description = description r\<rparr>"

text \<open>\<^verbatim>\<open>df.loc[mask]\<close> and \<^verbatim>\<open>df[mask]\<close>: the rows whose mask entry is true, in their order.\<close>

definition loc :: "'a list \<Rightarrow> bool list \<Rightarrow> 'a list" where
  "loc df bs = map fst (filter snd (zip df bs))"

definition get_transactions :: "csv_file \<Rightarrow> string \<Rightarrow> string \<Rightarrow> error + date row list" where
  "get_transactions f start_date end_date =
     (case read_csv f of
        Inl e \<Rightarrow> Inl e
      | Inr df0 \<Rightarrow>
     (case to_datetime (map date df0) of
        Inl e \<Rightarrow> Inl e
      | Inr ds \<Rightarrow>
     (case strptime start_date of
        Inl e \<Rightarrow> Inl e
      | Inr sd \<Rightarrow>
     (case strptime end_date of
        Inl e \<Rightarrow> Inl e
      | Inr ed \<Rightarrow>
          (let df = map2 set_date df0 ds;
               mask' = map2 (\<and>) (map (\<lambda>r. date r \<ge> sd) df) (map (\<lambda>r. date r \<le> ed) df)
           in Inr (loc df mask'))))))"

section \<open>Totals and savings rate\<close>

text \<open>\<^verbatim>\<open>df[df["category"] == cat]\<close>: a boolean mask over the rows, then the selection.\<close>

definition select_category :: "string \<Rightarrow> 'd row list \<Rightarrow> 'd row list" where
  "select_category cat df = loc df (map (\<lambda>r. category r = cat) df)"

text \<open>\<^verbatim>\<open>df[df["category"] == cat]["amount"].sum()\<close>; the sum of no rows is 0.\<close>

definition category_total :: "string \<Rightarrow> 'd row list \<Rightarrow> rat" where
  "category_total cat df = sum_list (map amount (select_category cat df))"

definition total_income :: "'d row list \<Rightarrow> rat" where
  "total_income df = category_total ''Income'' df"

definition total_expense :: "'d row list \<Rightarrow> rat" where
  "total_expense df = category_total ''Expense'' df"

record summary =
  income :: rat
  expense :: rat
  net :: rat

definition totals :: "'d row list \<Rightarrow> summary" where
  "totals df =
     \<lparr>income = total_income df, expense = total_expense df,
      net = total_income df - total_expense df\<rparr>"

text \<open>Python's \<^verbatim>\<open>/\<close>, with the division by zero as an error value.\<close>

definition truediv :: "rat \<Rightarrow> rat \<Rightarrow> error + rat" where
  "truediv a b = (if b = 0 then Inl ZeroDivisionError else Inr (a / b))"

text \<open>
  \<^verbatim>\<open>savings = total_income - total_expense\<close>,
  \<^verbatim>\<open>savings_percent = (savings / total_income * 100) if total_income > 0 else 0\<close>.
\<close>

definition savings_percent :: "rat \<Rightarrow> rat \<Rightarrow> error + rat" where
  "savings_percent ti te =
     (let savings = ti - te
      in if ti > 0
         then (case truediv savings ti of Inl e \<Rightarrow> Inl e | Inr q \<Rightarrow> Inr (q * 100))
         else Inr 0)"

section \<open>Breakdown by description\<close>



section \<open>Resampling by day and by month\<close>

definition next_day :: "date \<Rightarrow> date" where
  "next_day d =
     (if day d < days_in_month (year d) (month d) then Date (year d) (month d) (day d + 1)
      else if month d < 12 then Date (year d) (month d + 1) 1
      else Date (year d + 1) 1 1)"

text \<open>The calendar days from \<open>lo\<close> to \<open>hi\<close>, both included.\<close>

function days_from :: "date \<Rightarrow> date \<Rightarrow> date list" where
  "days_from lo hi = (if hi < lo then [] else lo # days_from (next_day lo) hi)"
  by pat_completeness auto
termination
proof (relation "measures [\<lambda>(lo, hi). year hi + 1 - year lo, \<lambda>(lo, hi). 13 - month lo,
                           \<lambda>(lo, hi). 32 - day lo]")
  show "wf (measures [\<lambda>(lo, hi). year hi + 1 - year lo, \<lambda>(lo, hi). 13 - month lo,
                      \<lambda>(lo, hi). 32 - day lo])"
    by simp
next
  fix lo hi :: date
  assume "\<not> hi < lo"
  then have "year lo \<le> year hi"
    by (auto simp: less_date_def not_less)
  moreover have "days_in_month (year lo) (month lo) \<le> 31"
    by (simp add: days_in_month_def)
  ultimately show "((next_day lo, hi), (lo, hi)) \<in>
      measures [\<lambda>(lo, hi). year hi + 1 - year lo, \<lambda>(lo, hi). 13 - month lo,
                \<lambda>(lo, hi). 32 - day lo]"
    by (auto simp: next_day_def)
qed

text \<open>
  \<^verbatim>\<open>.resample("D").sum()["amount"]\<close>: one bucket for each calendar day from the earliest
  to the latest date of the rows, holding the sum of the amounts of that day's rows (0
  when the day has none); nothing when there are no rows.
\<close>

definition resample_D :: "date row list \<Rightarrow> (date \<times> rat) list" where
  "resample_D df =
     (if df = [] then []
      else map (\<lambda>d. (d, sum_list (map amount (filter (\<lambda>r. date r = d) df))))
               (days_from (Min (set (map date df))) (Max (set (map date df)))))"

text \<open>The last day of the month of a date, and the last day of the month after.\<close>

definition month_end :: "date \<Rightarrow> date" where
  "month_end d = Date (year d) (month d) (days_in_month (year d) (month d))"

text \<open>A valid date that is the last day of its month.\<close>

definition is_month_end :: "date \<Rightarrow> bool" where
  "is_month_end e = (valid_date e \<and> day e = days_in_month (year e) (month e))"

definition next_month_end :: "date \<Rightarrow> date" where
  "next_month_end d =
     (if month d < 12 then month_end (Date (year d) (month d + 1) 1)
      else month_end (Date (year d + 1) 1 1))"

function month_ends_from :: "date \<Rightarrow> date \<Rightarrow> date list" where
  "month_ends_from lo hi = (if hi < lo then [] else lo # month_ends_from (next_month_end lo) hi)"
  by pat_completeness auto
termination
proof (relation "measures [\<lambda>(lo, hi). year hi + 1 - year lo, \<lambda>(lo, hi). 13 - month lo]")
  show "wf (measures [\<lambda>(lo, hi). year hi + 1 - year lo, \<lambda>(lo, hi). 13 - month lo])"
    by simp
next
  fix lo hi :: date
  assume "\<not> hi < lo"
  then have "year lo \<le> year hi"
    by (auto simp: less_date_def not_less)
  then show "((next_month_end lo, hi), (lo, hi)) \<in>
      measures [\<lambda>(lo, hi). year hi + 1 - year lo, \<lambda>(lo, hi). 13 - month lo]"
    by (auto simp: next_month_end_def month_end_def)
qed

text \<open>
  \<^verbatim>\<open>.resample("M").sum()["amount"]\<close>: month-end frequency. One bucket for each month from
  the month of the earliest date to the month of the latest, labelled with the last day
  of the month, holding the sum of the amounts of the rows of that month.
\<close>

definition resample_M :: "date row list \<Rightarrow> (date \<times> rat) list" where
  "resample_M df =
     (if df = [] then []
      else map (\<lambda>e. (e, sum_list (map amount (filter (\<lambda>r. month_end (date r) = e) df))))
               (month_ends_from (month_end (Min (set (map date df))))
                                (month_end (Max (set (map date df))))))"

section \<open>The combined income / expense / net table\<close>

text \<open>A cell of the combined table is a number or missing (\<open>None\<close>, pandas' NaN).\<close>

record combined_row =
  bucket :: date
  Income :: "rat option"
  Expense :: "rat option"
  Net :: "rat option"

text \<open>Subtraction of two cells: missing when either side is.\<close>

definition nan_sub :: "rat option \<Rightarrow> rat option \<Rightarrow> rat option" where
  "nan_sub a b = (case a of None \<Rightarrow> None | Some x \<Rightarrow> (case b of None \<Rightarrow> None | Some y \<Rightarrow> Some (x - y)))"

text \<open>
  \<^verbatim>\<open>pd.DataFrame({'Income': income_ts["amount"] if not income_ts.empty else 0,
                 'Expense': expense_ts["amount"] if not expense_ts.empty else 0})\<close>
  followed by \<^verbatim>\<open>combined_df['Net'] = combined_df['Income'] - combined_df['Expense']\<close>.
  An empty series is replaced by the scalar 0, which fills its whole column; two scalars
  and no index make the constructor raise. Two series are aligned on the sorted union of
  their indexes, and a date that a series does not have gives a missing cell.
\<close>

definition combine :: "(date \<times> rat) list \<Rightarrow> (date \<times> rat) list \<Rightarrow> error + combined_row list" where
  "combine income_ts expense_ts =
     (if income_ts = [] \<and> expense_ts = [] then Inl ValueError
      else
        (let index = (if income_ts = [] then map fst expense_ts
                      else if expense_ts = [] then map fst income_ts
                      else sort (remdups (map fst income_ts @ map fst expense_ts)));
             income_col = (\<lambda>d. if income_ts = [] then Some 0 else map_of income_ts d);
             expense_col = (\<lambda>d. if expense_ts = [] then Some 0 else map_of expense_ts d)
         in Inr (map (\<lambda>d. \<lparr>bucket = d, Income = income_col d, Expense = expense_col d,
                             Net = nan_sub (income_col d) (expense_col d)\<rparr>) index)))"

datatype period = Daily | Monthly

text \<open>The "Daily/Monthly Analysis" branch: both categories resampled, then combined.\<close>

definition daily_monthly_analysis :: "period \<Rightarrow> date row list \<Rightarrow> error + combined_row list" where
  "daily_monthly_analysis time_period df =
     (case time_period of
        Daily \<Rightarrow> combine (resample_D (select_category ''Income'' df))
                           (resample_D (select_category ''Expense'' df))
      | Monthly \<Rightarrow> combine (resample_M (select_category ''Income'' df))
                             (resample_M (select_category ''Expense'' df)))"

section \<open>Selections by mask\<close>

lemma loc_Nil: "loc [] bs = []"
  by (simp add: loc_def)

lemma loc_map_mask: "loc df (map p df) = filter p df"
  by (induction df) (simp_all add: loc_def)

lemma loc_and_masks:
  "loc df (map2 (\<and>) (map p df) (map q df)) = filter (\<lambda>r. p r \<and> q r) df"
  by (induction df) (simp_all add: loc_def)

lemma select_category_filter: "select_category cat df = filter (\<lambda>r. category r = cat) df"
  by (simp add: select_category_def loc_map_mask)

lemma get_transactions_filter:
  assumes "to_datetime (map date rows) = Inr ds"
    and "strptime start_date = Inr sd" and "strptime end_date = Inr ed"
  shows "get_transactions (Some rows) start_date end_date =
           Inr (filter (\<lambda>r. sd \<le> date r \<and> date r \<le> ed) (map2 set_date rows ds))"
  using assms by (simp add: get_transactions_def read_csv_def loc_and_masks Let_def)

section \<open>The range query\<close>

text \<open>
  C1. When the file exists, every stored date parses (to the dates \<open>ds\<close>) and both bounds
  parse (to \<open>sd\<close> and \<open>ed\<close>), the range query succeeds and returns the ledger rows with
  \<open>sd \<le> date \<le> ed\<close>, both bounds included, as a filter of the ledger: exactly those
  rows, in the order the ledger has them.
\<close>

theorem range_query_inclusive_stable:
  assumes "to_datetime (map date rows) = Inr ds"
    and "strptime start_date = Inr sd" and "strptime end_date = Inr ed"
  shows "get_transactions (Some rows) start_date end_date =
           Inr (filter (\<lambda>r. sd \<le> date r \<and> date r \<le> ed) (map2 set_date rows ds))"
  using assms by (rule get_transactions_filter)

theorem range_query_inclusive_stable_witness:
  "get_transactions
     (Some [\<lparr>date = ''15-01-2024'', amount = 1000, category = ''Income'', description = Some ''Salary''\<rparr>,
            \<lparr>date = ''01-02-2024'', amount = 30, category = ''Expense'', description = None\<rparr>,
            \<lparr>date = ''31-01-2024'', amount = 200, category = ''Expense'', description = Some ''Groceries''\<rparr>,
            \<lparr>date = ''01-01-2024'', amount = 5, category = ''Expense'', description = Some ''Tea''\<rparr>])
     ''01-01-2024'' ''31-01-2024'' =
   Inr [\<lparr>date = Date 2024 1 15, amount = 1000, category = ''Income'', description = Some ''Salary''\<rparr>,
        \<lparr>date = Date 2024 1 31, amount = 200, category = ''Expense'', description = Some ''Groceries''\<rparr>,
        \<lparr>date = Date 2024 1 1, amount = 5, category = ''Expense'', description = Some ''Tea''\<rparr>]"
proof -
  have h1: "to_datetime (map date
     [\<lparr>date = ''15-01-2024'', amount = 1000, category = ''Income'', description = Some ''Salary''\<rparr>,
      \<lparr>date = ''01-02-2024'', amount = 30, category = ''Expense'', description = None\<rparr>,
      \<lparr>date = ''31-01-2024'', amount = 200, category = ''Expense'', description = Some ''Groceries''\<rparr>,
      \<lparr>date = ''01-01-2024'', amount = 5, category = ''Expense'', description = Some ''Tea''\<rparr>])
     = Inr [Date 2024 1 15, Date 2024 2 1, Date 2024 1 31, Date 2024 1 1]"
    by code_simp
  have h2: "strptime ''01-01-2024'' = Inr (Date 2024 1 1)" by code_simp
  have h3: "strptime ''31-01-2024'' = Inr (Date 2024 1 31)" by code_simp
  show ?thesis
    using range_query_inclusive_stable [OF h1 h2 h3]
    by (simp add: set_date_def less_eq_date_def)
qed

text \<open>
  C8. For every ledger whose dates parse and every pair of bounds that parse with the
  start strictly after the end, the range query succeeds with the empty sequence.
\<close>

theorem reversed_range_is_empty:
  assumes "to_datetime (map date rows) = Inr ds"
    and "strptime start_date = Inr sd" and "strptime end_date = Inr ed"
    and "ed < sd"
  shows "get_transactions (Some rows) start_date end_date = Inr []"
proof -
  have "\<not> (sd \<le> d \<and> d \<le> ed)" for d
    using \<open>ed < sd\<close> by auto
  then show ?thesis
    using assms(1-3) by (simp add: get_transactions_filter)
qed

theorem reversed_range_is_empty_witness:
  "get_transactions
     (Some [\<lparr>date = ''15-01-2024'', amount = 1000, category = ''Income'', description = Some ''Salary''\<rparr>,
            \<lparr>date = ''20-01-2024'', amount = 200, category = ''Expense'', description = Some ''Groceries''\<rparr>])
     ''31-01-2024'' ''01-01-2024'' = Inr []"
proof -
  have h1: "to_datetime (map date
     [\<lparr>date = ''15-01-2024'', amount = 1000, category = ''Income'', description = Some ''Salary''\<rparr>,
      \<lparr>date = ''20-01-2024'', amount = 200, category = ''Expense'', description = Some ''Groceries''\<rparr>])
     = Inr [Date 2024 1 15, Date 2024 1 20]"
    by code_simp
  have h2: "strptime ''31-01-2024'' = Inr (Date 2024 1 31)" by code_simp
  have h3: "strptime ''01-01-2024'' = Inr (Date 2024 1 1)" by code_simp
  have h4: "Date 2024 1 1 < Date 2024 1 31" by (simp add: less_date_def)
  show ?thesis
    using reversed_range_is_empty [OF h1 h2 h3 h4] .
qed

text \<open>
  C7, counterexample. The claim says that loading while the backing file does not exist
  yields an empty result and never raises. \<open>get_transactions\<close> reads the file with no
  handler, so on a missing file the error of \<^verbatim>\<open>read_csv\<close> reaches the caller, also for
  bounds that parse.
\<close>

theorem load_missing_file_counterexample:
  "strptime ''01-01-2024'' = Inr (Date 2024 1 1) \<and>
   strptime ''31-01-2024'' = Inr (Date 2024 1 31) \<and>
   get_transactions None ''01-01-2024'' ''31-01-2024'' = Inl FileNotFoundError"
  by code_simp

text \<open>
  C7, as the code has it. Once \<open>initialize_csv\<close> has run on the missing file (the program
  runs it at every start, before any load), the load succeeds with the empty result for
  every pair of bounds that parse; without it the load raises \<open>FileNotFoundError\<close>.
\<close>

theorem load_after_initialize:
  assumes "strptime start_date = Inr sd" and "strptime end_date = Inr ed"
  shows "get_transactions (initialize_csv None) start_date end_date = Inr [] \<and>
         get_transactions None start_date end_date = Inl FileNotFoundError"
  using assms by (simp add: get_transactions_def initialize_csv_def read_csv_def loc_def)

theorem load_after_initialize_witness:
  "get_transactions (initialize_csv None) ''01-01-2024'' ''31-01-2024'' = Inr [] \<and>
   get_transactions None ''01-01-2024'' ''31-01-2024'' = Inl FileNotFoundError"
proof -
  have h1: "strptime ''01-01-2024'' = Inr (Date 2024 1 1)" by code_simp
  have h2: "strptime ''31-01-2024'' = Inr (Date 2024 1 31)" by code_simp
  show ?thesis
    using load_after_initialize [OF h1 h2] .
qed

section \<open>Totals and savings rate: properties\<close>

text \<open>
  C2. For every subset, the income total is the sum of the amounts of the rows whose
  category is "Income", the expense total the sum over the rows whose category is
  "Expense", the net is income minus expense, and on the empty subset all three are 0.
\<close>

theorem totals_sums:
  "income (totals df) = sum_list (map amount (filter (\<lambda>r. category r = ''Income'') df)) \<and>
   expense (totals df) = sum_list (map amount (filter (\<lambda>r. category r = ''Expense'') df)) \<and>
   net (totals df) = income (totals df) - expense (totals df) \<and>
   totals [] = \<lparr>income = 0, expense = 0, net = 0\<rparr>"
  by (simp add: totals_def total_income_def total_expense_def category_total_def
        select_category_def loc_map_mask loc_Nil)

theorem totals_sums_witness:
  "totals [\<lparr>date = Date 2024 1 15, amount = 1000, category = ''Income'', description = Some ''Salary''\<rparr>,
           \<lparr>date = Date 2024 1 20, amount = 200, category = ''Expense'', description = Some ''Groceries''\<rparr>,
           \<lparr>date = Date 2024 1 21, amount = 7, category = ''Gift'', description = None\<rparr>]
     = \<lparr>income = 1000, expense = 200, net = 800\<rparr>"
  using totals_sums [of
     "[\<lparr>date = Date 2024 1 15, amount = 1000, category = ''Income'', description = Some ''Salary''\<rparr>,
       \<lparr>date = Date 2024 1 20, amount = 200, category = ''Expense'', description = Some ''Groceries''\<rparr>,
       \<lparr>date = Date 2024 1 21, amount = 7, category = ''Gift'', description = None\<rparr>]"]
  by (cases "totals [\<lparr>date = Date 2024 1 15, amount = 1000, category = ''Income'', description = Some ''Salary''\<rparr>,
           \<lparr>date = Date 2024 1 20, amount = 200, category = ''Expense'', description = Some ''Groceries''\<rparr>,
           \<lparr>date = Date 2024 1 21, amount = 7, category = ''Gift'', description = None\<rparr>]") simp

text \<open>
  C3. For every income and expense total the savings rate is computed without error:
  it is \<open>(income - expense) / income * 100\<close> when the income is positive and 0 otherwise,
  so the division is never reached with a zero divisor.
\<close>

theorem savings_rate_total:
  "savings_percent ti te = Inr (if ti > 0 then (ti - te) / ti * 100 else 0)"
  by (simp add: savings_percent_def truediv_def)

theorem savings_rate_total_witness:
  "savings_percent 1000 200 = Inr 80 \<and> savings_percent 0 200 = Inr 0"
  using savings_rate_total [of 1000 200] savings_rate_total [of 0 200] by simp

section \<open>Breakdown by description: properties\<close>






section \<open>The date format: properties\<close>

lemma digits2: "n < 100 \<Longrightarrow> 10 * (n div 10 mod 10) + n mod 10 = (n::nat)"
  by simp

lemma digits4:
  assumes "n \<le> 9999"
  shows "1000 * (n div 1000 mod 10) + 100 * (n div 100 mod 10) + 10 * (n div 10 mod 10) + n mod 10 = (n::nat)"
proof -
  define a b c where "a = n div 10" and "b = n div 100" and "c = n div 1000"
  have 1: "n = 10 * a + n mod 10" by (simp add: a_def)
  have "b = a div 10" by (simp add: a_def b_def div_mult2_eq[symmetric])
  then have 2: "a = 10 * b + a mod 10" by simp
  have "c = b div 10" by (simp add: b_def c_def div_mult2_eq[symmetric])
  then have 3: "b = 10 * c + b mod 10" by simp
  have 4: "c < 10" using assms by (simp add: c_def)
  have 5: "n div 1000 mod 10 = c"
    using 4 by (simp add: c_def)
  have "1000 * c + 100 * (b mod 10) + 10 * (a mod 10) + n mod 10 = n"
    using 1 2 3 by simp
  then show ?thesis
    unfolding 5 by (simp only: a_def b_def c_def)
qed

lemma of_char_digit_char: "a < 10 \<Longrightarrow> (of_char (digit_char a) :: nat) = 48 + a"
  by (simp add: digit_char_def)

lemma digit_char_eq_iff:
  assumes "a < 10"
  shows "(digit_char a = c) = ((of_char c :: nat) = 48 + a)"
proof -
  have "(digit_char a = c) = ((of_char (digit_char a) :: nat) = of_char c)"
    by (simp only: of_char_eq_iff)
  then show ?thesis
    using of_char_digit_char [OF assms] by auto
qed

lemma in_range_digit_char:
  "a < 10 \<Longrightarrow> in_range lo hi (digit_char a) = ((of_char lo :: nat) \<le> 48 + a \<and> 48 + a \<le> (of_char hi :: nat))"
  by (simp add: in_range_def of_char_digit_char)

lemma is_digit_digit_char: "a < 10 \<Longrightarrow> is_digit (digit_char a)"
  by (simp add: is_digit_def in_range_digit_char)

lemma digit_val_digit_char: "a < 10 \<Longrightarrow> digit_val (digit_char a) = a"
  by (simp add: digit_val_def of_char_digit_char)

lemma digit_char_not_blank: "a < 10 \<Longrightarrow> digit_char a \<noteq> CHR '' ''"
  by (simp add: digit_char_eq_iff)

lemma is_digit_conv:
  assumes "is_digit c"
  shows "digit_val c < 10 \<and> c = digit_char (digit_val c)"
proof -
  have r: "48 \<le> (of_char c :: nat)" "(of_char c :: nat) \<le> 57"
    using assms by (simp_all add: is_digit_def in_range_def)
  then have lt: "digit_val c < 10"
    by (simp add: digit_val_def)
  have "(of_char c :: nat) = 48 + digit_val c"
    using r by (simp add: digit_val_def)
  then have "digit_char (digit_val c) = c"
    using lt by (simp add: digit_char_eq_iff)
  then show ?thesis using lt by simp
qed

text \<open>The day and month pieces on two digits: they match exactly when the number is in range.\<close>

lemma match_d_digits_iff:
  assumes "a < 10" "b < 10"
  shows "then_lit (CHR ''-'') (match_d (digit_char a # digit_char b # CHR ''-'' # r)) =
           (if 1 \<le> 10 * a + b \<and> 10 * a + b \<le> 31 then [([digit_char a, digit_char b], r)] else [])"
  using assms
  by (simp add: match_d_def txt2_def txt1_def then_lit_def lit_def is_digit_def
          in_range_digit_char digit_char_eq_iff) arith

lemma match_m_digits_iff:
  assumes "a < 10" "b < 10"
  shows "then_lit (CHR ''-'') (match_m (digit_char a # digit_char b # CHR ''-'' # r)) =
           (if 1 \<le> 10 * a + b \<and> 10 * a + b \<le> 12 then [([digit_char a, digit_char b], r)] else [])"
  using assms
  by (simp add: match_m_def txt2_def txt1_def then_lit_def lit_def is_digit_def
          in_range_digit_char digit_char_eq_iff) arith

lemma match_Y_digits:
  assumes "a < 10" "b < 10" "c < 10" "d < 10"
  shows "match_Y (digit_char a # digit_char b # digit_char c # digit_char d # r) =
           [([digit_char a, digit_char b, digit_char c, digit_char d], r)]"
  using assms by (simp add: match_Y_def is_digit_digit_char)

lemma py_int_2digits:
  "a < 10 \<Longrightarrow> b < 10 \<Longrightarrow> py_int [digit_char a, digit_char b] = 10 * a + b"
  by (simp add: py_int_def digit_char_not_blank digit_val_digit_char)

lemma py_int_4digits:
  "a < 10 \<Longrightarrow> b < 10 \<Longrightarrow> c < 10 \<Longrightarrow> d < 10 \<Longrightarrow>
   py_int [digit_char a, digit_char b, digit_char c, digit_char d] = 1000 * a + 100 * b + 10 * c + d"
  by (simp add: py_int_def digit_char_not_blank digit_val_digit_char)

lemma pad2_digits: "a < 10 \<Longrightarrow> b < 10 \<Longrightarrow> pad2 (10 * a + b) = [digit_char a, digit_char b]"
  by (simp add: pad2_def)

lemma decimal_digit: "a < 10 \<Longrightarrow> decimal a = [digit_char a]"
  by (subst decimal.simps) simp

lemma decimal_step: "c < 10 \<Longrightarrow> 1 \<le> k \<Longrightarrow> decimal (10 * k + c) = decimal k @ [digit_char c]"
  by (subst decimal.simps) simp

text \<open>A year from 1000 on is printed with its four digits.\<close>

lemma decimal_4digits:
  assumes "a < 10" "b < 10" "c < 10" "e < 10" "1 \<le> a"
  shows "decimal (1000 * a + 100 * b + 10 * c + e) =
           [digit_char a, digit_char b, digit_char c, digit_char e]"
proof -
  define k2 where "k2 = 10 * a + b"
  define k1 where "k1 = 10 * k2 + c"
  have n: "1000 * a + 100 * b + 10 * c + e = 10 * k1 + e"
    by (simp add: k1_def k2_def)
  have ge: "1 \<le> k2" "1 \<le> k1"
    using assms(5) by (simp_all add: k1_def k2_def)
  have "decimal (10 * k1 + e) = decimal k1 @ [digit_char e]"
    using assms(4) ge(2) by (rule decimal_step)
  also have "decimal k1 = decimal k2 @ [digit_char c]"
    unfolding k1_def using assms(3) ge(1) by (rule decimal_step)
  also have "decimal k2 = decimal a @ [digit_char b]"
    unfolding k2_def using assms(2,5) by (rule decimal_step)
  also have "decimal a = [digit_char a]"
    using assms(1) by (rule decimal_digit)
  finally show ?thesis
    unfolding n by simp
qed

text \<open>Parsing the formatted text of a valid date from the year 1000 on gives the date back.\<close>

lemma strptime_strftime:
  assumes "valid_date d" and "1000 \<le> year d"
  shows "strptime (strftime d) = Inr d"
proof -
  define da db ma mb where "da = day d div 10 mod 10" and "db = day d mod 10"
    and "ma = month d div 10 mod 10" and "mb = month d mod 10"
  define y3 y2 y1 y0 where "y3 = year d div 1000 mod 10" and "y2 = year d div 100 mod 10"
    and "y1 = year d div 10 mod 10" and "y0 = year d mod 10"
  define ytxt where "ytxt = [digit_char y3, digit_char y2, digit_char y1, digit_char y0]"
  have lt: "da < 10" "db < 10" "ma < 10" "mb < 10" "y3 < 10" "y2 < 10" "y1 < 10" "y0 < 10"
    by (simp_all add: da_def db_def ma_def mb_def y3_def y2_def y1_def y0_def)
  have dim: "days_in_month (year d) (month d) \<le> 31"
    by (simp add: days_in_month_def)
  have bounds: "1 \<le> day d" "day d \<le> 31" "1 \<le> month d" "month d \<le> 12"
    "1 \<le> year d" "year d \<le> 9999"
    using assms dim by (simp_all add: valid_date_def)
  have dd: "10 * da + db = day d"
    unfolding da_def db_def using bounds(2) by (intro digits2) simp
  have mm: "10 * ma + mb = month d"
    unfolding ma_def mb_def using bounds(4) by (intro digits2) simp
  have yy: "1000 * y3 + 100 * y2 + 10 * y1 + y0 = year d"
    unfolding y3_def y2_def y1_def y0_def using bounds(6) by (rule digits4)
  have "1 \<le> y3"
    using yy lt(6-8) assms(2) by linarith
  then have "decimal (1000 * y3 + 100 * y2 + 10 * y1 + y0) = ytxt"
    unfolding ytxt_def using lt(5-8) by (intro decimal_4digits)
  then have dy: "decimal (year d) = ytxt"
    by (simp only: yy)
  have s: "strftime d = digit_char da # digit_char db # CHR ''-'' #
             (digit_char ma # digit_char mb # CHR ''-'' # ytxt)"
    by (simp add: strftime_def pad2_def dy da_def db_def ma_def mb_def)
  have md: "then_lit (CHR ''-'') (match_d (strftime d)) =
       [([digit_char da, digit_char db], digit_char ma # digit_char mb # CHR ''-'' # ytxt)]"
    unfolding s using bounds(1,2) by (simp add: match_d_digits_iff [OF lt(1,2)] dd)
  have mmm: "then_lit (CHR ''-'') (match_m (digit_char ma # digit_char mb # CHR ''-'' # ytxt)) =
       [([digit_char ma, digit_char mb], ytxt)]"
    using bounds(3,4) by (simp add: match_m_digits_iff [OF lt(3,4)] mm)
  have my: "match_Y ytxt = [(ytxt, [])]"
    unfolding ytxt_def using lt(5-8) by (rule match_Y_digits)
  have "regex_match (strftime d) = [([digit_char da, digit_char db], [digit_char ma, digit_char mb], ytxt, [])]"
    by (simp add: regex_match_def md mmm my)
  moreover have "py_int [digit_char da, digit_char db] = day d"
    using lt dd by (simp add: py_int_2digits)
  moreover have "py_int [digit_char ma, digit_char mb] = month d"
    using lt mm by (simp add: py_int_2digits)
  moreover have "py_int ytxt = year d"
    unfolding ytxt_def using lt yy by (simp add: py_int_4digits)
  ultimately show ?thesis
    using assms(1) by (simp add: strptime_def)
qed

text \<open>
  Formatting the date parsed from a text made of digits in the fixed pattern gives the
  text back, when the year is from 1000 on.
\<close>

lemma strftime_strptime_digits:
  assumes lt: "a0 < 10" "a1 < 10" "a3 < 10" "a4 < 10" "a6 < 10" "a7 < 10" "a8 < 10" "a9 < 10"
    and p: "strptime (digit_char a0 # digit_char a1 # CHR ''-'' #
              (digit_char a3 # digit_char a4 # CHR ''-'' #
                 [digit_char a6, digit_char a7, digit_char a8, digit_char a9])) = Inr d"
    and y: "1000 \<le> year d"
  shows "strftime d = digit_char a0 # digit_char a1 # CHR ''-'' #
              (digit_char a3 # digit_char a4 # CHR ''-'' #
                 [digit_char a6, digit_char a7, digit_char a8, digit_char a9])"
proof -
  let ?y = "[digit_char a6, digit_char a7, digit_char a8, digit_char a9]"
  let ?s = "digit_char a0 # digit_char a1 # CHR ''-'' # (digit_char a3 # digit_char a4 # CHR ''-'' # ?y)"
  let ?ok = "(1 \<le> 10 * a0 + a1 \<and> 10 * a0 + a1 \<le> 31) \<and> (1 \<le> 10 * a3 + a4 \<and> 10 * a3 + a4 \<le> 12)"
  have my: "match_Y ?y = [(?y, [])]"
    using lt(5-8) by (rule match_Y_digits)
  have rm: "regex_match ?s =
      (if ?ok then [([digit_char a0, digit_char a1], [digit_char a3, digit_char a4], ?y, [])] else [])"
    by (simp add: regex_match_def match_d_digits_iff [OF lt(1,2)] match_m_digits_iff [OF lt(3,4)] my)
  have ok: ?ok
  proof (rule ccontr)
    assume "\<not> ?ok"
    then have "regex_match ?s = []" using rm by simp
    then show False using p by (simp add: strptime_def)
  qed
  then have "regex_match ?s = [([digit_char a0, digit_char a1], [digit_char a3, digit_char a4], ?y, [])]"
    using rm by simp
  then have d: "d = Date (1000 * a6 + 100 * a7 + 10 * a8 + a9) (10 * a3 + a4) (10 * a0 + a1)"
    using p lt by (simp add: strptime_def py_int_2digits py_int_4digits Let_def split: if_splits)
  then have "1 \<le> a6"
    using y lt(6-8) by simp
  then have "decimal (1000 * a6 + 100 * a7 + 10 * a8 + a9) = ?y"
    using lt(5-8) by (intro decimal_4digits)
  then show ?thesis
    using lt d by (simp add: strftime_def pad2_digits)
qed

lemma list10:
  "length s = 10 \<Longrightarrow> s = [s ! 0, s ! 1, s ! 2, s ! 3, s ! 4, s ! 5, s ! 6, s ! 7, s ! 8, s ! 9]"
  by (rule nth_equalityI) (auto simp: nth_Cons' less_Suc_eq numeral_eq_Suc)

lemma strftime_strptime:
  assumes "strptime s = Inr d" and "fixed_pattern s" and "1000 \<le> year d"
  shows "strftime d = s"
proof -
  have len: "length s = 10" using assms(2) by (simp add: fixed_pattern_def)
  note s = list10 [OF len]
  have dg: "is_digit (s ! 0)" "is_digit (s ! 1)" "is_digit (s ! 3)" "is_digit (s ! 4)"
    "is_digit (s ! 6)" "is_digit (s ! 7)" "is_digit (s ! 8)" "is_digit (s ! 9)"
    and dash: "s ! 2 = CHR ''-''" "s ! 5 = CHR ''-''"
    using assms(2) by (simp_all add: fixed_pattern_def)
  have s': "s = digit_char (digit_val (s ! 0)) # digit_char (digit_val (s ! 1)) # CHR ''-'' #
      (digit_char (digit_val (s ! 3)) # digit_char (digit_val (s ! 4)) # CHR ''-'' #
        [digit_char (digit_val (s ! 6)), digit_char (digit_val (s ! 7)),
         digit_char (digit_val (s ! 8)), digit_char (digit_val (s ! 9))])"
    using s dg [THEN is_digit_conv] dash by simp
  have "strftime d = digit_char (digit_val (s ! 0)) # digit_char (digit_val (s ! 1)) # CHR ''-'' #
      (digit_char (digit_val (s ! 3)) # digit_char (digit_val (s ! 4)) # CHR ''-'' #
        [digit_char (digit_val (s ! 6)), digit_char (digit_val (s ! 7)),
         digit_char (digit_val (s ! 8)), digit_char (digit_val (s ! 9))])"
    using dg [THEN is_digit_conv] assms(1,3) s'
    by (intro strftime_strptime_digits) simp_all
  then show ?thesis using s' by simp
qed

text \<open>
  C4, counterexample. The first half of the claim says that parsing the formatted text
  of every valid date yields the date: the year 999 is formatted on three digits,
  "01-01-999", which does not parse. The second half says that formatting the date
  parsed from any text that parses yields the text: \<^verbatim>\<open>strptime\<close> also accepts a day or a
  month written with one digit, so "5-3-2024" parses to 5 March 2024, whose formatted
  text is "05-03-2024"; and "01-01-0999", in the fixed pattern, parses to a date whose
  formatted text is "01-01-999".
\<close>

theorem unpadded_text_counterexample:
  "strptime ''5-3-2024'' = Inr (Date 2024 3 5) \<and> strftime (Date 2024 3 5) \<noteq> ''5-3-2024'' \<and>
   valid_date (Date 999 1 1) \<and> strftime (Date 999 1 1) = ''01-01-999'' \<and>
   strptime (strftime (Date 999 1 1)) = Inl ValueError \<and>
   fixed_pattern ''01-01-0999'' \<and> strptime ''01-01-0999'' = Inr (Date 999 1 1) \<and>
   strftime (Date 999 1 1) \<noteq> ''01-01-0999''"
  by code_simp

text \<open>
  C4, as the code has it. For every valid date from the year 1000 on, parsing its
  formatted text yields the date; and for every text in the fixed pattern (2-digit day,
  2-digit month, 4-digit year) that parses to a date from the year 1000 on, formatting
  the parsed date yields the text again.
\<close>

theorem date_format_round_trip:
  "(valid_date d \<and> 1000 \<le> year d \<longrightarrow> strptime (strftime d) = Inr d) \<and>
   (strptime s = Inr d' \<and> fixed_pattern s \<and> 1000 \<le> year d' \<longrightarrow> strftime d' = s)"
  using strptime_strftime strftime_strptime by blast

theorem date_format_round_trip_witness:
  "strptime (strftime (Date 2024 3 5)) = Inr (Date 2024 3 5) \<and>
   strftime (Date 2024 2 29) = ''29-02-2024''"
proof -
  have h1: "valid_date (Date 2024 3 5) \<and> 1000 \<le> year (Date 2024 3 5)"
    by (simp add: valid_date_def days_in_month_def)
  have h2: "strptime ''29-02-2024'' = Inr (Date 2024 2 29)"
    by code_simp
  have h3: "fixed_pattern ''29-02-2024'' \<and> 1000 \<le> year (Date 2024 2 29)"
    by (simp add: fixed_pattern_def is_digit_def in_range_def)
  show ?thesis
    using date_format_round_trip [of "Date 2024 3 5" "''29-02-2024''" "Date 2024 2 29"] h1 h2 h3
    by blast
qed

section \<open>Resampling by day: properties\<close>

lemma days_in_month_bounds: "28 \<le> days_in_month y m" "days_in_month y m \<le> 31"
  by (simp_all add: days_in_month_def)

lemma next_day_greater: "lo < next_day lo"
  by (simp add: next_day_def less_date_def)

lemma next_day_least:
  assumes "valid_date lo" "valid_date d" "lo < d"
  shows "next_day lo \<le> d"
  using assms
  by (auto simp: next_day_def less_date_def less_eq_date_def valid_date_def)

lemma next_day_valid:
  assumes "valid_date lo" "valid_date hi" "lo < hi"
  shows "valid_date (next_day lo)"
proof -
  have "next_day lo \<le> hi" using assms by (rule next_day_least)
  then have "year (next_day lo) \<le> 9999"
    using assms(2) by (auto simp: less_eq_date_def valid_date_def)
  then show ?thesis
    using assms(1) days_in_month_bounds(1) [of "year lo" "month lo + 1"]
      days_in_month_bounds(1) [of "year lo + 1" 1]
    by (auto simp: next_day_def valid_date_def)
qed

lemma days_from_bounds: "d \<in> set (days_from lo hi) \<Longrightarrow> lo \<le> d \<and> d \<le> hi"
proof (induction lo hi rule: days_from.induct)
  case (1 lo hi)
  show ?case
  proof (cases "hi < lo")
    case True
    then show ?thesis using "1.prems" by simp
  next
    case False
    then have "d = lo \<or> d \<in> set (days_from (next_day lo) hi)"
      using "1.prems" by (subst (asm) days_from.simps) simp
    then show ?thesis
    proof
      assume "d = lo"
      then show ?thesis using False by simp
    next
      assume "d \<in> set (days_from (next_day lo) hi)"
      then have "next_day lo \<le> d \<and> d \<le> hi" using "1.IH" False by simp
      then show ?thesis using next_day_greater [of lo] by auto
    qed
  qed
qed

lemma days_from_sorted: "sorted_wrt (<) (days_from lo hi)"
proof (induction lo hi rule: days_from.induct)
  case (1 lo hi)
  show ?case
  proof (cases "hi < lo")
    case True
    then show ?thesis by simp
  next
    case False
    have "\<forall>d\<in>set (days_from (next_day lo) hi). lo < d"
      using days_from_bounds [of _ "next_day lo" hi] next_day_greater [of lo] by fastforce
    then show ?thesis
      using False "1.IH" by (subst days_from.simps) simp
  qed
qed

lemma days_from_set:
  assumes "valid_date lo" "valid_date hi"
  shows "set (days_from lo hi) = {d. valid_date d \<and> lo \<le> d \<and> d \<le> hi}"
  using assms
proof (induction lo hi rule: days_from.induct)
  case (1 lo hi)
  show ?case
  proof (cases "hi < lo")
    case True
    then show ?thesis by auto
  next
    case False
    then have unfold: "days_from lo hi = lo # days_from (next_day lo) hi"
      by (subst days_from.simps) simp
    show ?thesis
    proof (cases "lo = hi")
      case True
      then have "days_from (next_day lo) hi = []"
        using next_day_greater [of lo] by simp
      then show ?thesis
        using unfold True "1.prems" by auto
    next
      case ne: False
      then have lt: "lo < hi" using False by simp
      have v: "valid_date (next_day lo)"
        using "1.prems" lt by (rule next_day_valid)
      have IH: "set (days_from (next_day lo) hi) = {d. valid_date d \<and> next_day lo \<le> d \<and> d \<le> hi}"
        using "1.IH" [OF False v "1.prems"(2)] .
      have "{d. valid_date d \<and> lo \<le> d \<and> d \<le> hi} =
            insert lo {d. valid_date d \<and> next_day lo \<le> d \<and> d \<le> hi}"
        using "1.prems" lt next_day_least [OF "1.prems"(1)] next_day_greater [of lo]
        by (auto simp: order.order_iff_strict)
      then show ?thesis
        using unfold IH by simp
    qed
  qed
qed


lemma Min_Max_dates:
  assumes "rows \<noteq> []" and "\<forall>r\<in>set rows. valid_date (date r)"
  shows "valid_date (Min (set (map date rows)))" and "valid_date (Max (set (map date rows)))"
proof -
  have ne: "set (map date rows) \<noteq> {}" using assms(1) by simp
  have "Min (set (map date rows)) \<in> set (map date rows)"
    using ne by (intro Min_in) simp_all
  then show "valid_date (Min (set (map date rows)))" using assms(2) by auto
  have "Max (set (map date rows)) \<in> set (map date rows)"
    using ne by (intro Max_in) simp_all
  then show "valid_date (Max (set (map date rows)))" using assms(2) by auto
qed

text \<open>
  C10. For every subset whose rows of the category are not empty (and hold valid dates),
  the daily resampling of these rows has its buckets in strictly ascending order of
  date, so one bucket per date; the bucket dates are exactly the calendar days from the
  earliest to the latest date of the rows, both included; every bucket holds the sum of
  the amounts of the rows of its day, which is 0 for a day that has no row.
\<close>

theorem daily_resample_fills_gaps:
  assumes "rows = select_category cat df" and "rows \<noteq> []"
    and "\<forall>r\<in>set rows. valid_date (date r)"
  shows "sorted_wrt (<) (map fst (resample_D rows)) \<and>
         set (map fst (resample_D rows)) =
           {d. valid_date d \<and> Min (set (map date rows)) \<le> d \<and> d \<le> Max (set (map date rows))} \<and>
         (\<forall>(d, v)\<in>set (resample_D rows).
            v = sum_list (map amount (filter (\<lambda>r. date r = d) rows)) \<and>
            (d \<notin> set (map date rows) \<longrightarrow> v = 0))"
proof -
  let ?lo = "Min (set (map date rows))" and ?hi = "Max (set (map date rows))"
  have fst: "map fst (resample_D rows) = days_from ?lo ?hi"
    using assms(2) by (simp add: resample_D_def comp_def)
  have "filter (\<lambda>r. date r = d) rows = []" if "d \<notin> set (map date rows)" for d
    using that by (auto simp: filter_empty_conv)
  then have vals: "\<forall>(d, v)\<in>set (resample_D rows).
            v = sum_list (map amount (filter (\<lambda>r. date r = d) rows)) \<and>
            (d \<notin> set (map date rows) \<longrightarrow> v = 0)"
    using assms(2) by (auto simp: resample_D_def)
  show ?thesis
    using fst days_from_sorted [of ?lo ?hi]
      days_from_set [OF Min_Max_dates [OF assms(2,3)]] vals
    by simp
qed

theorem daily_resample_fills_gaps_witness:
  "resample_D (select_category ''Income''
      [\<lparr>date = Date 2024 2 27, amount = 5, category = ''Income'', description = Some ''Gift''\<rparr>,
       \<lparr>date = Date 2024 2 28, amount = 9, category = ''Expense'', description = Some ''Food''\<rparr>,
       \<lparr>date = Date 2024 3 2, amount = 7, category = ''Income'', description = Some ''Gift''\<rparr>])
     = [(Date 2024 2 27, 5), (Date 2024 2 28, 0), (Date 2024 2 29, 0), (Date 2024 3 1, 0),
        (Date 2024 3 2, 7)] \<and>
   set (map fst (resample_D (select_category ''Income''
      [\<lparr>date = Date 2024 2 27, amount = 5, category = ''Income'', description = Some ''Gift''\<rparr>,
       \<lparr>date = Date 2024 2 28, amount = 9, category = ''Expense'', description = Some ''Food''\<rparr>,
       \<lparr>date = Date 2024 3 2, amount = 7, category = ''Income'', description = Some ''Gift''\<rparr>]))) =
     {d. valid_date d \<and> Date 2024 2 27 \<le> d \<and> d \<le> Date 2024 3 2}"
proof -
  let ?df = "[\<lparr>date = Date 2024 2 27, amount = 5, category = ''Income'', description = Some ''Gift''\<rparr>,
       \<lparr>date = Date 2024 2 28, amount = 9, category = ''Expense'', description = Some ''Food''\<rparr>,
       \<lparr>date = Date 2024 3 2, amount = 7, category = ''Income'', description = Some ''Gift''\<rparr>]"
  have rows: "select_category ''Income'' ?df =
      [\<lparr>date = Date 2024 2 27, amount = 5, category = ''Income'', description = Some ''Gift''\<rparr>,
       \<lparr>date = Date 2024 3 2, amount = 7, category = ''Income'', description = Some ''Gift''\<rparr>]"
    by (simp add: select_category_filter)
  have h2: "select_category ''Income'' ?df \<noteq> []"
    by (simp add: rows)
  have h3: "\<forall>r\<in>set (select_category ''Income'' ?df). valid_date (date r)"
    by (simp add: rows valid_date_def days_in_month_def is_leap_def)
  have lo: "Min (set (map date (select_category ''Income'' ?df))) = Date 2024 2 27"
    by (simp add: rows min_def less_eq_date_def)
  have hi: "Max (set (map date (select_category ''Income'' ?df))) = Date 2024 3 2"
    by (simp add: rows max_def less_eq_date_def)
  have ev: "resample_D (select_category ''Income'' ?df)
     = [(Date 2024 2 27, 5), (Date 2024 2 28, 0), (Date 2024 2 29, 0), (Date 2024 3 1, 0),
        (Date 2024 3 2, 7)]"
    by code_simp
  show ?thesis
    using daily_resample_fills_gaps [OF refl h2 h3] ev unfolding lo hi by blast
qed

section \<open>Resampling by month: properties\<close>

lemma month_end_is_month_end:
  "valid_date d \<Longrightarrow> is_month_end (month_end d)"
  using days_in_month_bounds(1) [of "year d" "month d"]
  by (simp add: is_month_end_def month_end_def valid_date_def)

lemma month_end_mono: "a \<le> b \<Longrightarrow> month_end a \<le> month_end b"
  by (auto simp: month_end_def less_eq_date_def)

lemma next_month_end_greater: "lo < next_month_end lo"
  by (simp add: next_month_end_def month_end_def less_date_def)

lemma next_month_end_least:
  assumes "is_month_end lo" "is_month_end d" "lo < d"
  shows "next_month_end lo \<le> d"
proof -
  have ym: "year lo < year d \<or> (year lo = year d \<and> month lo < month d)"
    using assms by (auto simp: less_date_def is_month_end_def)
  have dd: "day d = days_in_month (year d) (month d)" and md: "1 \<le> month d" "month d \<le> 12"
    using assms(2) by (simp_all add: is_month_end_def valid_date_def)
  show ?thesis
  proof (cases "month lo < 12")
    case True
    then have n: "next_month_end lo = Date (year lo) (month lo + 1) (days_in_month (year lo) (month lo + 1))"
      by (simp add: next_month_end_def month_end_def)
    from ym consider (a) "year lo < year d" | (b) "year lo = year d" "month lo + 1 < month d"
      | (c) "year lo = year d" "month lo + 1 = month d"
      by linarith
    then show ?thesis
    proof cases
      case a
      then show ?thesis by (simp add: n less_eq_date_def)
    next
      case b
      then show ?thesis by (simp add: n less_eq_date_def)
    next
      case c
      then show ?thesis using dd by (simp add: n less_eq_date_def)
    qed
  next
    case False
    then have n: "next_month_end lo = Date (year lo + 1) 1 (days_in_month (year lo + 1) 1)"
      by (simp add: next_month_end_def month_end_def)
    have "month lo = 12"
      using False assms(1) by (simp add: is_month_end_def valid_date_def)
    then have "year lo < year d" using ym md by simp
    then consider (a) "year lo + 1 < year d" | (b) "year lo + 1 = year d" "1 < month d"
      | (c) "year lo + 1 = year d" "month d = 1"
      using md by linarith
    then show ?thesis
    proof cases
      case a
      then show ?thesis by (simp add: n less_eq_date_def)
    next
      case b
      then show ?thesis by (simp add: n less_eq_date_def)
    next
      case c
      then show ?thesis using dd by (simp add: n less_eq_date_def)
    qed
  qed
qed

lemma next_month_end_valid:
  assumes "is_month_end lo" "is_month_end hi" "lo < hi"
  shows "is_month_end (next_month_end lo)"
proof -
  have "next_month_end lo \<le> hi" using assms by (rule next_month_end_least)
  then have "year (next_month_end lo) \<le> 9999"
    using assms(2) by (auto simp: less_eq_date_def valid_date_def is_month_end_def)
  then show ?thesis
    using assms(1) days_in_month_bounds(1) [of "year lo" "month lo + 1"]
      days_in_month_bounds(1) [of "year lo + 1" 1]
    by (auto simp: next_month_end_def month_end_def valid_date_def is_month_end_def)
qed

lemma month_ends_from_bounds: "d \<in> set (month_ends_from lo hi) \<Longrightarrow> lo \<le> d \<and> d \<le> hi"
proof (induction lo hi rule: month_ends_from.induct)
  case (1 lo hi)
  show ?case
  proof (cases "hi < lo")
    case True
    then show ?thesis using "1.prems" by simp
  next
    case False
    then have "d = lo \<or> d \<in> set (month_ends_from (next_month_end lo) hi)"
      using "1.prems" by (subst (asm) month_ends_from.simps) simp
    then show ?thesis
    proof
      assume "d = lo"
      then show ?thesis using False by simp
    next
      assume "d \<in> set (month_ends_from (next_month_end lo) hi)"
      then have "next_month_end lo \<le> d \<and> d \<le> hi" using "1.IH" False by simp
      then show ?thesis using next_month_end_greater [of lo] by auto
    qed
  qed
qed

lemma month_ends_from_sorted: "sorted_wrt (<) (month_ends_from lo hi)"
proof (induction lo hi rule: month_ends_from.induct)
  case (1 lo hi)
  show ?case
  proof (cases "hi < lo")
    case True
    then show ?thesis by simp
  next
    case False
    have "\<forall>d\<in>set (month_ends_from (next_month_end lo) hi). lo < d"
      using month_ends_from_bounds [of _ "next_month_end lo" hi] next_month_end_greater [of lo]
      by fastforce
    then show ?thesis
      using False "1.IH" by (subst month_ends_from.simps) simp
  qed
qed

lemma month_ends_from_set:
  assumes "is_month_end lo" "is_month_end hi"
  shows "set (month_ends_from lo hi) = {e. is_month_end e \<and> lo \<le> e \<and> e \<le> hi}"
  using assms
proof (induction lo hi rule: month_ends_from.induct)
  case (1 lo hi)
  show ?case
  proof (cases "hi < lo")
    case True
    then show ?thesis by auto
  next
    case False
    then have unfold: "month_ends_from lo hi = lo # month_ends_from (next_month_end lo) hi"
      by (subst month_ends_from.simps) simp
    show ?thesis
    proof (cases "lo = hi")
      case True
      then have "month_ends_from (next_month_end lo) hi = []"
        using next_month_end_greater [of lo] by simp
      then show ?thesis
        using unfold True "1.prems" by auto
    next
      case ne: False
      then have lt: "lo < hi" using False by simp
      have v: "is_month_end (next_month_end lo)"
        using "1.prems" lt by (rule next_month_end_valid)
      have IH: "set (month_ends_from (next_month_end lo) hi) =
                  {e. is_month_end e \<and> next_month_end lo \<le> e \<and> e \<le> hi}"
        using "1.IH" [OF False v "1.prems"(2)] .
      have "{e. is_month_end e \<and> lo \<le> e \<and> e \<le> hi} =
            insert lo {e. is_month_end e \<and> next_month_end lo \<le> e \<and> e \<le> hi}"
        using "1.prems" lt next_month_end_least [OF "1.prems"(1)] next_month_end_greater [of lo]
        by (auto simp: order.order_iff_strict)
      then show ?thesis
        using unfold IH by simp
    qed
  qed
qed


lemma month_ends_from_single: "month_ends_from e e = [e]"
proof -
  have "month_ends_from (next_month_end e) e = []"
    by (subst month_ends_from.simps) (simp only: next_month_end_greater if_True)
  then show ?thesis
    by (subst month_ends_from.simps) (simp only: less_irrefl if_False)
qed

lemma resample_M_same_month:
  assumes "month_end (date r1) = e" "month_end (date r2) = e"
  shows "resample_M [r1, r2] = [(e, amount r1 + amount r2)]"
proof -
  have lo: "month_end (min (date r1) (date r2)) = e"
    and hi: "month_end (max (date r1) (date r2)) = e"
    using assms by (simp_all add: min_def max_def)
  show ?thesis
    using assms by (simp add: resample_M_def lo hi month_ends_from_single next_month_end_greater)
qed

lemma january_2024_bucket:
  "resample_M (select_category c
      [\<lparr>date = Date 2024 1 5, amount = a, category = c, description = x\<rparr>,
       \<lparr>date = Date 2024 1 25, amount = b, category = c, description = y\<rparr>])
     = [(Date 2024 1 31, a + b)]"
proof -
  have "resample_M
      [\<lparr>date = Date 2024 1 5, amount = a, category = c, description = x\<rparr>,
       \<lparr>date = Date 2024 1 25, amount = b, category = c, description = y\<rparr>]
     = [(Date 2024 1 31, amount \<lparr>date = Date 2024 1 5, amount = a, category = c, description = x\<rparr>
          + amount \<lparr>date = Date 2024 1 25, amount = b, category = c, description = y\<rparr>)]"
    by (rule resample_M_same_month) (simp_all add: month_end_def days_in_month_def)
  then show ?thesis
    by (simp add: select_category_filter)
qed


text \<open>
  C6, counterexample. The claim says that the bucket of a row is dated the first day of
  the row's month. \<^verbatim>\<open>resample("M")\<close> is pandas' month-end frequency: the bucket of an
  income of 05-01-2024 is dated 31-01-2024, not 01-01-2024.
\<close>

theorem monthly_bucket_date_counterexample:
  "resample_M (select_category ''Income''
      [\<lparr>date = Date 2024 1 5, amount = 100, category = ''Income'', description = Some ''Salary''\<rparr>])
     = [(Date 2024 1 31, 100)] \<and>
   resample_M (select_category ''Income''
      [\<lparr>date = Date 2024 1 5, amount = 100, category = ''Income'', description = Some ''Salary''\<rparr>])
     \<noteq> [(Date 2024 1 1, 100)]"
  by code_simp

text \<open>
  C6, as the code has it. For the rows of a category, when there are some (with valid
  dates): the bucket dates are strictly ascending; they are exactly the month ends from
  the month of the earliest row to the month of the latest row (so a month in between
  with no row has a bucket too); every row's month has its bucket; every bucket holds
  the sum of the amounts of the rows of its month. In particular two rows of one
  category dated 05-01-2024 and 25-01-2024 give the single bucket of 31-01-2024 holding
  the sum of the two amounts.
\<close>

theorem monthly_resample_month_end_buckets:
  assumes "rows = select_category cat df" and "rows \<noteq> []"
    and "\<forall>r\<in>set rows. valid_date (date r)"
  shows "sorted_wrt (<) (map fst (resample_M rows)) \<and>
         set (map fst (resample_M rows)) =
           {e. is_month_end e \<and> month_end (Min (set (map date rows))) \<le> e \<and>
               e \<le> month_end (Max (set (map date rows)))} \<and>
         (\<forall>r\<in>set rows. month_end (date r) \<in> set (map fst (resample_M rows))) \<and>
         (\<forall>(e, v)\<in>set (resample_M rows).
            v = sum_list (map amount (filter (\<lambda>r. month_end (date r) = e) rows))) \<and>
         resample_M (select_category c
            [\<lparr>date = Date 2024 1 5, amount = a, category = c, description = x\<rparr>,
             \<lparr>date = Date 2024 1 25, amount = b, category = c, description = y\<rparr>])
           = [(Date 2024 1 31, a + b)]"
proof -
  let ?lo = "Min (set (map date rows))" and ?hi = "Max (set (map date rows))"
  have fst: "map fst (resample_M rows) = month_ends_from (month_end ?lo) (month_end ?hi)"
    using assms(2) by (simp add: resample_M_def comp_def)
  have ends: "is_month_end (month_end ?lo)" "is_month_end (month_end ?hi)"
    using Min_Max_dates [OF assms(2,3)] by (simp_all add: month_end_is_month_end)
  have set_eq: "set (map fst (resample_M rows)) =
      {e. is_month_end e \<and> month_end ?lo \<le> e \<and> e \<le> month_end ?hi}"
    unfolding fst using ends by (rule month_ends_from_set)
  have each: "month_end (date r) \<in> set (map fst (resample_M rows))" if "r \<in> set rows" for r
  proof -
    have "?lo \<le> date r" "date r \<le> ?hi"
      using that by simp_all
    then have "month_end ?lo \<le> month_end (date r)" "month_end (date r) \<le> month_end ?hi"
      by (simp_all add: month_end_mono)
    moreover have "is_month_end (month_end (date r))"
      using that assms(3) by (simp add: month_end_is_month_end)
    ultimately show ?thesis unfolding set_eq by simp
  qed
  have vals: "\<forall>(e, v)\<in>set (resample_M rows).
            v = sum_list (map amount (filter (\<lambda>r. month_end (date r) = e) rows))"
    using assms(2) by (auto simp: resample_M_def)
  show ?thesis
    using fst month_ends_from_sorted [of "month_end ?lo" "month_end ?hi"] set_eq each vals
      january_2024_bucket [of c a x b y]
    by simp
qed

theorem monthly_resample_month_end_buckets_witness:
  "resample_M (select_category ''Income''
      [\<lparr>date = Date 2023 11 5, amount = 5, category = ''Income'', description = Some ''Gift''\<rparr>,
       \<lparr>date = Date 2023 12 9, amount = 9, category = ''Expense'', description = Some ''Food''\<rparr>,
       \<lparr>date = Date 2024 2 25, amount = 7, category = ''Income'', description = Some ''Gift''\<rparr>])
     = [(Date 2023 11 30, 5), (Date 2023 12 31, 0), (Date 2024 1 31, 0), (Date 2024 2 29, 7)] \<and>
   sorted_wrt (<) (map fst (resample_M (select_category ''Income''
      [\<lparr>date = Date 2023 11 5, amount = 5, category = ''Income'', description = Some ''Gift''\<rparr>,
       \<lparr>date = Date 2023 12 9, amount = 9, category = ''Expense'', description = Some ''Food''\<rparr>,
       \<lparr>date = Date 2024 2 25, amount = 7, category = ''Income'', description = Some ''Gift''\<rparr>])))"
proof -
  let ?df = "[\<lparr>date = Date 2023 11 5, amount = 5, category = ''Income'', description = Some ''Gift''\<rparr>,
       \<lparr>date = Date 2023 12 9, amount = 9, category = ''Expense'', description = Some ''Food''\<rparr>,
       \<lparr>date = Date 2024 2 25, amount = 7, category = ''Income'', description = Some ''Gift''\<rparr>]"
  have rows: "select_category ''Income'' ?df =
      [\<lparr>date = Date 2023 11 5, amount = 5, category = ''Income'', description = Some ''Gift''\<rparr>,
       \<lparr>date = Date 2024 2 25, amount = 7, category = ''Income'', description = Some ''Gift''\<rparr>]"
    by (simp add: select_category_filter)
  have h2: "select_category ''Income'' ?df \<noteq> []"
    by (simp add: rows)
  have h3: "\<forall>r\<in>set (select_category ''Income'' ?df). valid_date (date r)"
    by (simp add: rows valid_date_def days_in_month_def is_leap_def)
  have ev: "resample_M (select_category ''Income'' ?df)
     = [(Date 2023 11 30, 5), (Date 2023 12 31, 0), (Date 2024 1 31, 0), (Date 2024 2 29, 7)]"
    by code_simp
  show ?thesis
    using monthly_resample_month_end_buckets [OF refl h2 h3] ev by blast
qed

section \<open>The combined table: a missing bucket\<close>

text \<open>
  C5. The claim says that a bucket date absent from one of the two series counts as 0 on
  that side and that net is income minus expense in every row. The code replaces by 0
  only a series that is empty as a whole; two non-empty series are aligned by the
  \<^verbatim>\<open>DataFrame\<close> constructor, which leaves the cell of an absent date missing (NaN), and
  the net of such a row is missing too. With an income on 05-01-2024 and an expense on
  10-02-2024 the monthly table has the row of January with no expense and no net, and the
  row of February with no income and no net.
\<close>

theorem combined_absent_side_is_missing:
  "daily_monthly_analysis Monthly
     [\<lparr>date = Date 2024 1 5, amount = 100, category = ''Income'', description = Some ''Salary''\<rparr>,
      \<lparr>date = Date 2024 2 10, amount = 50, category = ''Expense'', description = Some ''Rent''\<rparr>]
   = Inr [\<lparr>bucket = Date 2024 1 31, Income = Some 100, Expense = None, Net = None\<rparr>,
          \<lparr>bucket = Date 2024 2 29, Income = None, Expense = Some 50, Net = None\<rparr>]"
  by code_simp

end
